theory Spec2Isabelle
  imports Main "HOL-Library.AList" "HOL-Library.Multiset"
begin

section \<open>Paths\<close>

text \<open>
  A \<^verbatim>\<open>pathlib.Path\<close> in its POSIX flavour: the root (\<open>''/''\<close>, \<open>''//''\<close> or
  empty for a relative path) and the components after it. Two paths are equal when their
  parsed parts are, as \<^verbatim>\<open>Path.__eq__\<close> has it. Characters are bytes; the decimal
  digits are the ASCII ones.
\<close>

datatype path = Path (anchor: string) (tail: "string list")

text \<open>\<^verbatim>\<open>Path(s)\<close>: split at the separator, dropping empty components and \<^verbatim>\<open>.\<close>.\<close>

fun split_sep :: "string \<Rightarrow> string list" where
  "split_sep [] = [[]]"
| "split_sep (c # cs) =
     (if c = CHR ''/'' then [] # split_sep cs
      else (case split_sep cs of [] \<Rightarrow> [[c]] | w # ws \<Rightarrow> (c # w) # ws))"

definition segments :: "string \<Rightarrow> string list" where
  "segments s = filter (\<lambda>x. x \<noteq> [] \<and> x \<noteq> ''.'') (split_sep s)"

definition splitroot :: "string \<Rightarrow> string" where
  "splitroot s =
     (if take 1 s \<noteq> ''/'' then []
      else if take 2 s = ''//'' \<and> take 3 s \<noteq> ''///'' then ''//''
      else ''/'')"

definition parse_path :: "string \<Rightarrow> path" where
  "parse_path s = Path (splitroot s) (segments s)"

text \<open>\<^verbatim>\<open>self / s\<close>: an absolute right operand replaces the left one.\<close>

definition joinpath :: "path \<Rightarrow> string \<Rightarrow> path" where
  "joinpath p s =
     (if take 1 s = ''/'' then parse_path s
      else Path (anchor p) (tail p @ segments s))"

definition parent :: "path \<Rightarrow> path" where
  "parent p = (if tail p = [] then p else Path (anchor p) (butlast (tail p)))"

definition name :: "path \<Rightarrow> string" where
  "name p = (if tail p = [] then [] else last (tail p))"

text \<open>\<^verbatim>\<open>str.rfind\<close> of one character: the last index where it occurs, or \<open>-1\<close>.\<close>

definition rfind :: "char \<Rightarrow> string \<Rightarrow> int" where
  "rfind c s =
     (if c \<in> set s
      then int (length s) - 1 - int (length (takeWhile (\<lambda>x. x \<noteq> c) (rev s)))
      else - 1)"

definition suffix :: "path \<Rightarrow> string" where
  "suffix p =
     (let n = name p; i = rfind CHR ''.'' n
      in if 0 < i \<and> i < int (length n) - 1 then drop (nat i) n else [])"

definition stem :: "path \<Rightarrow> string" where
  "stem p =
     (let n = name p; i = rfind CHR ''.'' n
      in if 0 < i \<and> i < int (length n) - 1 then take (nat i) n else n)"

fun intersperse_sep :: "string list \<Rightarrow> string" where
  "intersperse_sep [] = []"
| "intersperse_sep [x] = x"
| "intersperse_sep (x # y # ys) = x @ ''/'' @ intersperse_sep (y # ys)"

text \<open>\<^verbatim>\<open>str(path)\<close>; the empty relative path prints as \<^verbatim>\<open>.\<close>.\<close>

definition str_path :: "path \<Rightarrow> string" where
  "str_path p =
     (if anchor p = [] \<and> tail p = [] then ''.''
      else anchor p @ intersperse_sep (tail p))"

section \<open>Sequence detection (core/sequence\_detector.py)\<close>

text \<open>
  The detector with its default pattern \<^verbatim>\<open>\d+\<close>: \<^verbatim>\<open>re.search\<close> finds the first
  maximal run of decimal digits of the stem and \<^verbatim>\<open>int\<close> reads it.
\<close>

definition is_digit :: "char \<Rightarrow> bool" where
  "is_digit c = (c \<in> set ''0123456789'')"

definition search_digits :: "string \<Rightarrow> string option" where
  "search_digits s =
     (let r = takeWhile is_digit (dropWhile (\<lambda>c. \<not> is_digit c) s)
      in if r = [] then None else Some r)"

definition py_int :: "string \<Rightarrow> int" where
  "py_int ds = foldl (\<lambda>acc c. 10 * acc + (int (of_char c) - 48)) 0 ds"

text \<open>The three lines every method repeats: search the stem, convert a match.\<close>

definition match_number :: "path \<Rightarrow> int option" where
  "match_number file_path = map_option py_int (search_digits (stem file_path))"

fun collect_numbers :: "path list \<Rightarrow> int list" where
  "collect_numbers [] = []"
| "collect_numbers (file_path # rest) =
     (case match_number file_path of
        Some n \<Rightarrow> n # collect_numbers rest
      | None \<Rightarrow> collect_numbers rest)"

text \<open>The builtins \<^verbatim>\<open>min\<close> and \<^verbatim>\<open>max\<close> on a non-empty list.\<close>

definition py_min :: "int list \<Rightarrow> int" where
  "py_min xs = fold min (tl xs) (hd xs)"

definition py_max :: "int list \<Rightarrow> int" where
  "py_max xs = fold max (tl xs) (hd xs)"

definition detect_missing :: "path list \<Rightarrow> int list" where
  "detect_missing file_paths =
     (let numbers = collect_numbers file_paths
      in if numbers = [] then []
         else
           (let numbers = sort numbers;
                expected = set [py_min numbers .. py_max numbers];
                actual = set numbers
            in sorted_list_of_set (expected - actual)))"

text \<open>
  \<^verbatim>\<open>number_files\<close> is a dict in insertion order: a new number is appended with an
  empty list, then the file name is appended to the number's list.
\<close>

fun group_files :: "path list \<Rightarrow> (int \<times> string list) list \<Rightarrow> (int \<times> string list) list" where
  "group_files [] number_files = number_files"
| "group_files (file_path # rest) number_files =
     (case match_number file_path of
        Some n \<Rightarrow>
          (let number_files =
                 (if n \<in> fst ` set number_files then number_files
                  else number_files @ [(n, [])]);
               files = (case map_of number_files n of Some fs \<Rightarrow> fs | None \<Rightarrow> [])
           in group_files rest (AList.update n (files @ [name file_path]) number_files))
      | None \<Rightarrow> group_files rest number_files)"

definition detect_duplicates :: "path list \<Rightarrow> (int \<times> string list) list" where
  "detect_duplicates file_paths =
     filter (\<lambda>(num, files). length files > 1) (group_files file_paths [])"

record sequence_report =
  is_valid :: bool
  missing_numbers :: "int list"
  duplicate_numbers :: "(int \<times> string list) list"
  total_files :: nat
  min_number :: "int option"
  max_number :: "int option"

definition validate_sequence :: "path list \<Rightarrow> sequence_report" where
  "validate_sequence file_paths =
     (let missing = detect_missing file_paths;
          duplicates = detect_duplicates file_paths;
          numbers = collect_numbers file_paths
      in \<lparr> is_valid = (length missing = 0 \<and> length duplicates = 0),
           missing_numbers = missing,
           duplicate_numbers = duplicates,
           total_files = length file_paths,
           min_number = (if numbers \<noteq> [] then Some (py_min numbers) else None),
           max_number = (if numbers \<noteq> [] then Some (py_max numbers) else None) \<rparr>)"

text \<open>The loop over \<^verbatim>\<open>range(len(numbers) - 1)\<close> of \<^verbatim>\<open>get_sequence_gaps\<close>.\<close>

fun adjacent_gaps :: "int list \<Rightarrow> (int \<times> int) list" where
  "adjacent_gaps (a # b # rest) =
     (if b - a > 1 then (a, b) # adjacent_gaps (b # rest) else adjacent_gaps (b # rest))"
| "adjacent_gaps _ = []"

definition get_sequence_gaps :: "path list \<Rightarrow> (int \<times> int) list" where
  "get_sequence_gaps file_paths =
     (let numbers = collect_numbers file_paths
      in if numbers = [] then [] else adjacent_gaps (sort numbers))"

text \<open>
  The reading of the gaps in the specification: the pairs of neighbours of the distinct
  sorted numbers that are more than one apart.
\<close>

definition distinct_set_gaps :: "int list \<Rightarrow> (int \<times> int) list" where
  "distinct_set_gaps numbers =
     (let ds = sorted_list_of_set (set numbers)
      in filter (\<lambda>(a, b). b - a > 1) (zip ds (tl ds)))"

section \<open>Renaming (core/renamer.py)\<close>

text \<open>
  The filesystem holds regular files: a partial map from paths to contents. Directories
  are implicit (every directory a path names exists and is writable), so the only
  failures of the primitives below are a missing source, an occupied destination on
  Windows, and a regular file standing where the backup directory is to be made.
\<close>

type_synonym filesystem = "path \<rightharpoonup> string"

datatype platform = Posix | Windows

datatype os_error = FileNotFoundError path path | FileExistsError path path | NotADirectory path

text \<open>\<^verbatim>\<open>str(e)\<close>, without the quotation marks Python puts around the file names.\<close>

fun str_error :: "os_error \<Rightarrow> string" where
  "str_error (FileNotFoundError src dst) =
     ''[Errno 2] No such file or directory: '' @ str_path src @ '' -> '' @ str_path dst"
| "str_error (FileExistsError src dst) =
     ''[WinError 183] Cannot create a file when that file already exists: ''
       @ str_path src @ '' -> '' @ str_path dst"
| "str_error (NotADirectory p) = ''[Errno 17] File exists: '' @ str_path p"

text \<open>
  \<^verbatim>\<open>Path.rename\<close> is \<^verbatim>\<open>os.rename\<close>: on POSIX an existing destination file is
  replaced silently, on Windows it makes the call raise \<^verbatim>\<open>FileExistsError\<close>.
\<close>

definition os_rename :: "platform \<Rightarrow> path \<Rightarrow> path \<Rightarrow> filesystem \<Rightarrow> os_error + filesystem" where
  "os_rename os src dst fs =
     (case fs src of
        None \<Rightarrow> Inl (FileNotFoundError src dst)
      | Some content \<Rightarrow>
          if src = dst then Inr fs
          else if os = Windows \<and> fs dst \<noteq> None then Inl (FileExistsError src dst)
          else Inr ((fs(src := None))(dst \<mapsto> content)))"

definition exists_path :: "filesystem \<Rightarrow> path \<Rightarrow> bool" where
  "exists_path fs p = (fs p \<noteq> None)"

text \<open>\<^verbatim>\<open>str(idx)\<close> and \<^verbatim>\<open>str.zfill\<close>.\<close>

definition digit_char :: "nat \<Rightarrow> char" where
  "digit_char d = char_of (48 + d)"

function str_nat :: "nat \<Rightarrow> string" where
  "str_nat n = (if n < 10 then [digit_char n] else str_nat (n div 10) @ [digit_char (n mod 10)])"
  by pat_completeness auto
termination
  by (relation "measure id") auto

definition str_int :: "int \<Rightarrow> string" where
  "str_int i = (if i < 0 then CHR ''-'' # str_nat (nat (- i)) else str_nat (nat i))"

definition zfill :: "string \<Rightarrow> int \<Rightarrow> string" where
  "zfill s width =
     (if width \<le> int (length s) then s
      else
        (let fill = replicate (nat (width - int (length s))) CHR ''0''
         in case s of
              [] \<Rightarrow> fill
            | c # rest \<Rightarrow>
                if c = CHR ''+'' \<or> c = CHR ''-'' then c # fill @ rest else fill @ s))"

text \<open>
  The body of the \<^verbatim>\<open>try\<close>: the exception raised, if any, and the filesystem as the
  body left it.
\<close>

definition rename_one :: "platform \<Rightarrow> path \<Rightarrow> path \<Rightarrow> filesystem \<Rightarrow> os_error option \<times> filesystem" where
  "rename_one os original_path final_path fs =
     (if original_path = final_path then (None, fs)
      else if exists_path fs final_path then
        (let temp_path = joinpath (parent final_path) (''.tmp_'' @ name final_path)
         in case os_rename os original_path temp_path fs of
              Inl e \<Rightarrow> (Some e, fs)
            | Inr fs1 \<Rightarrow>
                (case os_rename os temp_path final_path fs1 of
                   Inl e \<Rightarrow> (Some e, fs1)
                 | Inr fs2 \<Rightarrow> (None, fs2)))
      else
        (case os_rename os original_path final_path fs of
           Inl e \<Rightarrow> (Some e, fs)
         | Inr fs1 \<Rightarrow> (None, fs1)))"

record rename_info =
  original_path :: path
  final_path :: path
  planned_number :: int

record log_entry =
  original :: string
  new :: string
  number :: int
  success :: bool
  error :: "string option"

text \<open>The planning loop over \<^verbatim>\<open>enumerate(file_paths, start=start_number)\<close>.\<close>

fun plan_renames :: "path \<Rightarrow> string \<Rightarrow> int \<Rightarrow> int \<Rightarrow> path list \<Rightarrow> rename_info list" where
  "plan_renames target_dir prefix digits idx [] = []"
| "plan_renames target_dir prefix digits idx (file_path # rest) =
     (let extension = suffix file_path;
          new_name = prefix @ zfill (str_int idx) digits @ extension;
          new_path = joinpath target_dir new_name
      in \<lparr> original_path = file_path, final_path = new_path, planned_number = idx \<rparr>
           # plan_renames target_dir prefix digits (idx + 1) rest)"

definition execute_one :: "bool \<Rightarrow> platform \<Rightarrow> rename_info \<Rightarrow> filesystem \<Rightarrow> log_entry \<times> filesystem" where
  "execute_one dry_run os info fs =
     (let log_entry = \<lparr> original = str_path (original_path info),
                         new = str_path (final_path info),
                         number = planned_number info,
                         success = False, error = None \<rparr>
      in if dry_run then (log_entry\<lparr>success := True\<rparr>, fs)
         else
           (case rename_one os (original_path info) (final_path info) fs of
              (None, fs') \<Rightarrow> (log_entry\<lparr>success := True\<rparr>, fs')
            | (Some e, fs') \<Rightarrow> (log_entry\<lparr>error := Some (str_error e)\<rparr>, fs')))"

fun execute_renames :: "bool \<Rightarrow> platform \<Rightarrow> rename_info list \<Rightarrow> filesystem \<Rightarrow> log_entry list \<times> filesystem" where
  "execute_renames dry_run os [] fs = ([], fs)"
| "execute_renames dry_run os (info # rest) fs =
     (let (log_entry, fs1) = execute_one dry_run os info fs;
          (rename_log, fs2) = execute_renames dry_run os rest fs1
      in (log_entry # rename_log, fs2))"

text \<open>
  \<^verbatim>\<open>_create_backup\<close>: \<^verbatim>\<open>mkdir(parents=True, exist_ok=True)\<close> raises when a regular
  file has the directory's name; a file that cannot be copied is skipped.
\<close>

fun copy_files :: "path list \<Rightarrow> path \<Rightarrow> filesystem \<Rightarrow> filesystem" where
  "copy_files [] backup_dir fs = fs"
| "copy_files (file_path # rest) backup_dir fs =
     copy_files rest backup_dir
       (case fs file_path of
          None \<Rightarrow> fs
        | Some content \<Rightarrow> fs(joinpath backup_dir (name file_path) \<mapsto> content))"

definition create_backup :: "string \<Rightarrow> path list \<Rightarrow> path \<Rightarrow> filesystem \<Rightarrow> os_error + filesystem" where
  "create_backup timestamp file_paths target_dir fs =
     (let backup_dir = joinpath target_dir (''.backup_'' @ timestamp)
      in if exists_path fs backup_dir then Inl (NotADirectory backup_dir)
         else Inr (copy_files file_paths backup_dir fs))"

text \<open>
  \<^verbatim>\<open>rename_files\<close>; \<open>timestamp\<close> is what \<^verbatim>\<open>datetime.now()\<close> formats to. The result
  is the exception that leaves the method, or the log it returns with the filesystem it
  leaves behind.
\<close>

definition rename_files ::
  "bool \<Rightarrow> platform \<Rightarrow> string \<Rightarrow> path list \<Rightarrow> string option \<Rightarrow> string \<Rightarrow> int \<Rightarrow> int \<Rightarrow> bool
     \<Rightarrow> filesystem \<Rightarrow> os_error + (log_entry list \<times> filesystem)" where
  "rename_files dry_run os timestamp file_paths target_dir prefix digits start_number backup fs =
     (if file_paths = [] then Inr ([], fs)
      else
        (let target_dir = (case target_dir of
                             None \<Rightarrow> parent (hd file_paths)
                           | Some d \<Rightarrow> parse_path d)
         in case (if backup \<and> \<not> dry_run
                  then create_backup timestamp file_paths target_dir fs
                  else Inr fs) of
              Inl e \<Rightarrow> Inl e
            | Inr fs1 \<Rightarrow>
                Inr (execute_renames dry_run os
                       (plan_renames target_dir prefix digits start_number file_paths) fs1)))"

section \<open>Comparing and sorting by content (core/vlm\_analyzer.py)\<close>

text \<open>
  The oracle, \<open>llm\<close>, is everything the \<^verbatim>\<open>try\<close> block of
  \<^verbatim>\<open>compare_images_order\<close> asks of the outside: encoding the two images and the
  model's chat completion. Its answer to the
  \<open>k\<close>-th consultation (counting from 0) about two images is the text of the response,
  or \<open>None\<close> when anything in the block raises. The analyzer's state is the comparison
  cache; the list of consultations made so far, each with its answer, is kept beside it.
\<close>

type_synonym vlm_oracle = "nat \<Rightarrow> string \<Rightarrow> string \<Rightarrow> string option"

record vlm_state =
  comparison_cache :: "(string \<times> string) \<rightharpoonup> int"
  consultations :: "(string \<times> string \<times> string option) list"

text \<open>The constructor leaves an empty cache.\<close>

definition vlm_init :: vlm_state where
  "vlm_init = \<lparr> comparison_cache = Map.empty, consultations = [] \<rparr>"

definition is_space :: "char \<Rightarrow> bool" where
  "is_space c = (c \<in> set [CHR '' '', CHR 0x09, CHR 0x0A, CHR 0x0B, CHR 0x0C, CHR 0x0D,
                            CHR 0x1C, CHR 0x1D, CHR 0x1E, CHR 0x1F])"

definition strip :: "string \<Rightarrow> string" where
  "strip s = rev (dropWhile is_space (rev (dropWhile is_space s)))"

fun starts_with :: "string \<Rightarrow> string \<Rightarrow> bool" where
  "starts_with [] s = True"
| "starts_with (c # cs) [] = False"
| "starts_with (c # cs) (d # ds) = (c = d \<and> starts_with cs ds)"

text \<open>\<^verbatim>\<open>sub in s\<close> for strings.\<close>

fun contains :: "string \<Rightarrow> string \<Rightarrow> bool" where
  "contains sub [] = (sub = [])"
| "contains sub (c # cs) = (starts_with sub (c # cs) \<or> contains sub cs)"

definition extract_result :: "string \<Rightarrow> int" where
  "extract_result content =
     (if contains ''-1'' content then - 1
      else if contains ''1'' content \<and> \<not> contains ''-1'' content then 1
      else 0)"

definition compare_images_order ::
  "bool \<Rightarrow> vlm_oracle \<Rightarrow> string \<Rightarrow> string \<Rightarrow> vlm_state \<Rightarrow> int \<times> vlm_state" where
  "compare_images_order enable_comparison_cache llm img1_path img2_path st =
     (let cache_key = (img1_path, img2_path);
          reverse_cache_key = (img2_path, img1_path)
      in case (if enable_comparison_cache then comparison_cache st cache_key else None) of
           Some cached \<Rightarrow> (cached, st)
         | None \<Rightarrow>
             (case (if enable_comparison_cache then comparison_cache st reverse_cache_key
                    else None) of
                Some cached \<Rightarrow> (- cached, st)
              | None \<Rightarrow>
                  (case llm (length (consultations st)) img1_path img2_path of
                     None \<Rightarrow>
                       (0, st\<lparr>consultations :=
                                 consultations st @ [(img1_path, img2_path, None)]\<rparr>)
                   | Some response \<Rightarrow>
                       (let content = strip response;
                            result = extract_result content
                        in (result,
                            st\<lparr>consultations :=
                                  consultations st @ [(img1_path, img2_path, Some response)],
                               comparison_cache :=
                                 (if enable_comparison_cache
                                  then (comparison_cache st)(cache_key \<mapsto> result)
                                  else comparison_cache st)\<rparr>)))))"

text \<open>A session: successive calls of \<^verbatim>\<open>compare_images_order\<close> on one analyzer.\<close>

fun call_sequence ::
  "bool \<Rightarrow> vlm_oracle \<Rightarrow> (string \<times> string) list \<Rightarrow> vlm_state \<Rightarrow> int list \<times> vlm_state" where
  "call_sequence enable llm [] st = ([], st)"
| "call_sequence enable llm ((a, b) # rest) st =
     (let (r, st1) = compare_images_order enable llm a b st;
          (rs, st2) = call_sequence enable llm rest st1
      in (r # rs, st2))"

text \<open>The consultations of the oracle about the unordered pair of \<open>a\<close> and \<open>b\<close>.\<close>

definition consultations_of :: "string \<Rightarrow> string \<Rightarrow> vlm_state \<Rightarrow> (string \<times> string \<times> string option) list" where
  "consultations_of a b st =
     filter (\<lambda>(x, y, r). (x, y) = (a, b) \<or> (x, y) = (b, a)) (consultations st)"

definition failed :: "string \<times> string \<times> string option \<Rightarrow> bool" where
  "failed c = (snd (snd c) = None)"

text \<open>
  What holds of the cache and the consultations after any number of calls: a pair with no
  cached verdict has only failed consultations, every consultation of a pair but its last
  one failed, and two different images have a verdict cached in at most one order.
\<close>

definition cache_inv :: "vlm_state \<Rightarrow> bool" where
  "cache_inv st \<longleftrightarrow>
     (\<forall>a b. (comparison_cache st (a, b) = None \<and> comparison_cache st (b, a) = None \<longrightarrow>
                list_all failed (consultations_of a b st))
            \<and> list_all failed (butlast (consultations_of a b st))
            \<and> (a \<noteq> b \<longrightarrow> comparison_cache st (a, b) = None \<or> comparison_cache st (b, a) = None))"

text \<open>
  \<^verbatim>\<open>sorted(image_paths, key=cmp_to_key(compare_func))\<close>. The list sort of the library
  is not code of this repository. It asks only whether one item is less than another,
  which \<^verbatim>\<open>cmp_to_key\<close> answers with \<^verbatim>\<open>compare_func(a, b) < 0\<close>, and it rearranges
  the items in place; what it asks or moves next depends on the length of the list and
  on the answers so far. So a sort is a program of comparisons and exchanges of
  positions, and the sorting algorithm, \<open>sorter\<close>, gives the program for each length. An
  instruction that addresses a position outside the list ends the run.
\<close>

datatype sort_prog = Halt | Swap nat nat sort_prog | IfLt nat nat sort_prog sort_prog

fun run_sort :: "('a \<Rightarrow> 'a \<Rightarrow> 's \<Rightarrow> int \<times> 's) \<Rightarrow> sort_prog \<Rightarrow> 'a list \<Rightarrow> 's \<Rightarrow> 'a list \<times> 's" where
  "run_sort cmp Halt xs s = (xs, s)"
| "run_sort cmp (Swap i j p) xs s =
     (if i < length xs \<and> j < length xs
      then run_sort cmp p (xs[i := xs ! j, j := xs ! i]) s
      else (xs, s))"
| "run_sort cmp (IfLt i j p q) xs s =
     (if i < length xs \<and> j < length xs
      then (let (r, s') = cmp (xs ! i) (xs ! j) s
            in if r < 0 then run_sort cmp p xs s' else run_sort cmp q xs s')
      else (xs, s))"

text \<open>
  What the library promises of its sort: on items compared through a key it returns the
  stable sort by that key. \<open>key_cmp\<close> is the three-way comparison a key induces.
\<close>

definition key_cmp :: "('a \<Rightarrow> int) \<Rightarrow> 'a \<Rightarrow> 'a \<Rightarrow> unit \<Rightarrow> int \<times> unit" where
  "key_cmp key a b u = (if key a < key b then - 1 else if key b < key a then 1 else 0, u)"

definition stable_sort_prog :: "sort_prog \<Rightarrow> nat \<Rightarrow> bool" where
  "stable_sort_prog p n \<longleftrightarrow>
     (\<forall>(xs :: string list) key. length xs = n \<longrightarrow>
        fst (run_sort (key_cmp key) p xs ()) = sort_key key xs)"

text \<open>
  The state of one sort: the analyzer, the counter \<^verbatim>\<open>current_comparison[0]\<close>, and the
  calls made to the progress callback.
\<close>

record sort_state =
  analyzer :: vlm_state
  current_comparison :: nat
  progress_calls :: "(nat \<times> nat) list"

definition compare_func ::
  "bool \<Rightarrow> vlm_oracle \<Rightarrow> bool \<Rightarrow> nat \<Rightarrow> string \<Rightarrow> string \<Rightarrow> sort_state \<Rightarrow> int \<times> sort_state" where
  "compare_func enable_comparison_cache llm progress_callback total_comparisons img1 img2 s =
     (let s = s\<lparr>current_comparison := current_comparison s + 1\<rparr>;
          s = (if progress_callback
               then s\<lparr>progress_calls :=
                        progress_calls s @ [(current_comparison s, total_comparisons)]\<rparr>
               else s);
          (r, st) = compare_images_order enable_comparison_cache llm img1 img2 (analyzer s)
      in (r, s\<lparr>analyzer := st\<rparr>))"

definition sort_images_by_content ::
  "bool \<Rightarrow> vlm_oracle \<Rightarrow> (nat \<Rightarrow> sort_prog) \<Rightarrow> bool \<Rightarrow> string list \<Rightarrow> vlm_state
     \<Rightarrow> string list \<times> sort_state" where
  "sort_images_by_content enable_comparison_cache llm sorter progress_callback image_paths st =
     (let s = \<lparr> analyzer = st, current_comparison = 0, progress_calls = [] \<rparr>
      in if length image_paths \<le> 1 then (image_paths, s)
         else
           (let total_comparisons = (length image_paths * (length image_paths - 1)) div 2
            in run_sort
                 (compare_func enable_comparison_cache llm progress_callback total_comparisons)
                 (sorter (length image_paths)) image_paths s))"

text \<open>
  A sorting algorithm to run the definitions on: insertion from the left, an item moving
  down while it is less than its neighbour. And three oracles: one that raises at its
  second consultation, one that raises at its first, one that never raises; each answers
  \<^verbatim>\<open>-1\<close> when it does not raise.
\<close>

fun sink :: "nat \<Rightarrow> sort_prog \<Rightarrow> sort_prog" where
  "sink 0 k = k"
| "sink (Suc i) k = IfLt (Suc i) i (Swap (Suc i) i (sink i k)) k"

fun insert_all :: "nat \<Rightarrow> nat \<Rightarrow> sort_prog" where
  "insert_all i 0 = Halt"
| "insert_all i (Suc m) = sink i (insert_all (Suc i) m)"

definition insertion_sorter :: "nat \<Rightarrow> sort_prog" where
  "insertion_sorter n = insert_all 1 (n - 1)"

definition second_fails :: vlm_oracle where
  "second_fails k a b = (if k = 1 then None else Some ''-1'')"

definition first_fails :: vlm_oracle where
  "first_fails k a b = (if k = 0 then None else Some ''-1'')"

definition always_first :: vlm_oracle where
  "always_first k a b = Some ''-1''"

section \<open>Properties of the sequence detector\<close>

lemma py_min_Min: "xs \<noteq> [] \<Longrightarrow> py_min xs = Min (set xs)"
  by (cases xs) (simp_all add: py_min_def Min.set_eq_fold [symmetric])

lemma py_max_Max: "xs \<noteq> [] \<Longrightarrow> py_max xs = Max (set xs)"
  by (cases xs) (simp_all add: py_max_def Max.set_eq_fold [symmetric])

lemma collect_numbers_Nil_iff:
  "collect_numbers fps = [] \<longleftrightarrow> (\<forall>p \<in> set fps. match_number p = None)"
  by (induction fps) (auto split: option.splits)

lemma group_files_no_match:
  "collect_numbers fps = [] \<Longrightarrow> group_files fps acc = acc"
  by (induction fps arbitrary: acc) (auto split: option.splits)

lemma adjacent_gaps_zip:
  "adjacent_gaps xs = filter (\<lambda>(a, b). b - a > 1) (zip xs (tl xs))"
  by (induction xs rule: adjacent_gaps.induct) auto

lemma adjacent_gaps_head:
  "zs \<noteq> [] \<Longrightarrow> adjacent_gaps (x # zs) =
     (if hd zs - x > 1 then (x, hd zs) # adjacent_gaps zs else adjacent_gaps zs)"
  by (cases zs) simp_all

lemma adjacent_gaps_remdups_adj:
  "adjacent_gaps (remdups_adj xs) = adjacent_gaps xs"
proof (induction xs rule: remdups_adj.induct)
  case (3 x y xs)
  have ne: "remdups_adj (y # xs) \<noteq> []" by simp
  have hd: "hd (remdups_adj (y # xs)) = y" by (simp add: hd_remdups_adj)
  show ?case
  proof (cases "x = y")
    case True
    with 3 show ?thesis by simp
  next
    case False
    with 3 show ?thesis
      by (simp add: adjacent_gaps_head [OF ne] hd)
  qed
qed simp_all

lemma distinct_remdups_adj_sorted:
  "sorted (xs :: int list) \<Longrightarrow> distinct (remdups_adj xs)"
  by (induction xs rule: remdups_adj.induct) (auto)

lemma sorted_list_of_set_remdups_adj_sort:
  "sorted_list_of_set (set (xs :: int list)) = remdups_adj (sort xs)"
  by (rule sorted_distinct_set_unique) (simp_all add: distinct_remdups_adj_sorted)

lemma get_sequence_gaps_distinct:
  "get_sequence_gaps fps = distinct_set_gaps (collect_numbers fps)"
  by (simp add: get_sequence_gaps_def distinct_set_gaps_def Let_def
      sorted_list_of_set_remdups_adj_sort adjacent_gaps_remdups_adj
      flip: adjacent_gaps_zip)


lemma map_of_filter_distinct:
  "distinct (map fst al) \<Longrightarrow>
   map_of (filter P al) k =
     (case map_of al k of Some v \<Rightarrow> if P (k, v) then Some v else None | None \<Rightarrow> None)"
proof (induction al)
  case Nil
  then show ?case by simp
next
  case (Cons a al)
  obtain k' v' where a: "a = (k', v')" by (cases a)
  from Cons.prems a have notin: "k' \<notin> fst ` set al" by simp
  have none: "map_of al k' = None"
    using notin by (simp add: map_of_eq_None_iff)
  have none': "map_of (filter P al) k' = None"
    using notin by (auto simp: map_of_eq_None_iff)
  from Cons show ?case
    by (auto simp: a none none' split: option.splits)
qed

lemma group_step_map_of:
  "map_of (AList.update k ((case map_of (if k \<in> fst ` set acc then acc else acc @ [(k, [])]) k of
                              Some fs \<Rightarrow> fs | None \<Rightarrow> []) @ [x])
            (if k \<in> fst ` set acc then acc else acc @ [(k, [])])) =
   (map_of acc)(k \<mapsto> (case map_of acc k of Some fs \<Rightarrow> fs | None \<Rightarrow> []) @ [x])"
proof (cases "k \<in> fst ` set acc")
  case True
  then show ?thesis by (simp add: update_conv')
next
  case False
  then have none: "map_of acc k = None" by (simp add: map_of_eq_None_iff)
  have "map_of (acc @ [(k, [])]) = (map_of acc)(k \<mapsto> [])"
    by (rule ext) (auto simp: map_add_def none split: option.splits)
  with False none show ?thesis by (simp add: update_conv')
qed

lemma group_step_distinct:
  "distinct (map fst acc) \<Longrightarrow>
   distinct (map fst (AList.update k v (if k \<in> fst ` set acc then acc else acc @ [(k, [])])))"
  by (rule distinct_update) auto

lemma group_files_distinct:
  "distinct (map fst acc) \<Longrightarrow> distinct (map fst (group_files fps acc))"
proof (induction fps arbitrary: acc)
  case Nil
  then show ?case by simp
next
  case (Cons p fps)
  show ?case
  proof (cases "match_number p")
    case None
    with Cons show ?thesis by simp
  next
    case (Some k)
    show ?thesis
      using Cons.IH [OF group_step_distinct [OF Cons.prems]] Some
      by (simp add: Let_def)
  qed
qed

lemma group_files_map_of:
  "map_of (group_files fps acc) n =
     (let names = map name (filter (\<lambda>p. match_number p = Some n) fps)
      in case map_of acc n of
           None \<Rightarrow> if names = [] then None else Some names
         | Some fs \<Rightarrow> Some (fs @ names))"
proof (induction fps arbitrary: acc)
  case Nil
  then show ?case by (simp split: option.splits)
next
  case (Cons p fps)
  show ?case
  proof (cases "match_number p")
    case None
    with Cons show ?thesis by simp
  next
    case (Some k)
    show ?thesis
      using Some
      by (simp add: Let_def Cons.IH group_step_map_of split: option.splits)
  qed
qed

lemma detect_duplicates_distinct:
  "distinct (map fst (detect_duplicates fps))"
  unfolding detect_duplicates_def
  by (rule distinct_map_filter) (simp add: group_files_distinct)

lemma detect_duplicates_map_of:
  "map_of (detect_duplicates fps) n =
     (let names = map name (filter (\<lambda>p. match_number p = Some n) fps)
      in if length names > 1 then Some names else None)"
  unfolding detect_duplicates_def
  by (simp add: map_of_filter_distinct group_files_distinct group_files_map_of Let_def)

lemma count_collect_numbers:
  "count (mset (collect_numbers fps)) n = length (filter (\<lambda>p. match_number p = Some n) fps)"
  by (induction fps) (auto split: option.splits)

lemma alist_empty_if_map_of_None:
  assumes "\<And>k. map_of al k = None"
  shows "al = []"
proof (cases al)
  case Nil
  then show ?thesis .
next
  case (Cons a list)
  then have "map_of al (fst a) = Some (snd a)" by simp
  with assms show ?thesis by simp
qed

lemma detect_missing_set:
  assumes "collect_numbers fps \<noteq> []"
  shows "detect_missing fps =
           sorted_list_of_set ({Min (set (collect_numbers fps))..Max (set (collect_numbers fps))}
                                 - set (collect_numbers fps))"
proof -
  have ne: "sort (collect_numbers fps) \<noteq> []"
    using assms by (metis length_sort length_0_conv)
  show ?thesis
    using assms by (simp add: detect_missing_def Let_def py_min_Min [OF ne] py_max_Max [OF ne])
qed


lemma adjacent_gaps_fst_mem:
  "(x, y) \<in> set (adjacent_gaps xs) \<Longrightarrow> x \<in> set xs"
  by (induction xs rule: adjacent_gaps.induct) (auto split: if_splits)

lemma adjacent_gaps_ascending:
  "sorted xs \<Longrightarrow> sorted_wrt (\<lambda>p q. snd p \<le> fst q) (adjacent_gaps xs)"
proof (induction xs rule: adjacent_gaps.induct)
  case (1 a b rest)
  have later: "b \<le> fst q" if "q \<in> set (adjacent_gaps (b # rest))" for q
  proof -
    obtain x y where q: "q = (x, y)" by (cases q)
    with that have "x \<in> set (b # rest)" by (blast dest: adjacent_gaps_fst_mem)
    with "1.prems" q show ?thesis by auto
  qed
  from 1 show ?case by (auto simp: later)
qed simp_all

text \<open>
  Claim C10. When no file name's stem contains a decimal digit (the empty list included),
  \<open>validate_sequence\<close> returns the report with \<open>is_valid = True\<close>, no missing
  numbers, no duplicates, \<open>total_files\<close> the length of the input and no minimum and no
  maximum: no numeric evidence is reported as a valid sequence.
\<close>

theorem validate_sequence_no_numbers:
  assumes "\<forall>p \<in> set file_paths. search_digits (stem p) = None"
  shows "validate_sequence file_paths =
           \<lparr> is_valid = True, missing_numbers = [], duplicate_numbers = [],
             total_files = length file_paths, min_number = None, max_number = None \<rparr>"
proof -
  from assms have none: "collect_numbers file_paths = []"
    by (simp add: collect_numbers_Nil_iff match_number_def)
  then show ?thesis
    by (simp add: validate_sequence_def detect_missing_def detect_duplicates_def
        group_files_no_match)
qed

theorem validate_sequence_no_numbers_witness:
  "validate_sequence [Path ''/'' [''vol2'', ''cover.jpg''], Path [] [''back.png'']] =
     \<lparr> is_valid = True, missing_numbers = [], duplicate_numbers = [],
       total_files = 2, min_number = None, max_number = None \<rparr>
   \<and> validate_sequence [] =
     \<lparr> is_valid = True, missing_numbers = [], duplicate_numbers = [],
       total_files = 0, min_number = None, max_number = None \<rparr>"
proof -
  have h: "\<forall>p \<in> set [Path ''/'' [''vol2'', ''cover.jpg''], Path [] [''back.png'']].
             search_digits (stem p) = None"
    by (simp add: search_digits_def stem_def name_def rfind_def is_digit_def)
  show ?thesis
    using validate_sequence_no_numbers [OF h] validate_sequence_no_numbers [of "[]"]
    by simp
qed

text \<open>
  Claim C9. \<open>get_sequence_gaps\<close>, which walks the sorted list of all extracted numbers
  with their repetitions, returns exactly the neighbouring pairs of the distinct sorted
  numbers that are more than one apart, and the pairs ascend: each pair ends no later
  than the next one starts.
\<close>

theorem get_sequence_gaps_distinct_sorted:
  "get_sequence_gaps file_paths = distinct_set_gaps (collect_numbers file_paths)
   \<and> sorted_wrt (\<lambda>p q. snd p \<le> fst q) (get_sequence_gaps file_paths)"
  by (simp add: get_sequence_gaps_distinct [symmetric])
     (simp add: get_sequence_gaps_def Let_def adjacent_gaps_ascending)

text \<open>
  Claim C7. When at least one number is extracted, the report's missing numbers are the
  ascending list, without repetition, of the integers between the least and the greatest
  extracted number that were not extracted; its duplicates map each number carried by
  more than one file to the names of those files, in input order, and no other number;
  \<open>is_valid\<close> holds exactly when both are empty; the minimum and the maximum are the
  least and greatest number. File names yielding the numbers 1, 2, 4, 5 give missing
  \<open>[3]\<close>, no duplicates, \<open>is_valid = False\<close>, minimum 1 and maximum 5.
\<close>

theorem validate_sequence_report:
  "(collect_numbers file_paths \<noteq> [] \<longrightarrow>
      (let ns = collect_numbers file_paths; r = validate_sequence file_paths
       in sorted (missing_numbers r) \<and> distinct (missing_numbers r)
          \<and> set (missing_numbers r) = {Min (set ns)..Max (set ns)} - set ns
          \<and> distinct (map fst (duplicate_numbers r))
          \<and> (\<forall>n. map_of (duplicate_numbers r) n =
                 (let names = map name (filter (\<lambda>p. match_number p = Some n) file_paths)
                  in if length names > 1 then Some names else None))
          \<and> is_valid r = (missing_numbers r = [] \<and> duplicate_numbers r = [])
          \<and> min_number r = Some (Min (set ns)) \<and> max_number r = Some (Max (set ns))))
   \<and> (mset (collect_numbers file_paths) = {#1, 2, 4, 5#} \<longrightarrow>
        validate_sequence file_paths =
          \<lparr> is_valid = False, missing_numbers = [3], duplicate_numbers = [],
            total_files = length file_paths, min_number = Some 1, max_number = Some 5 \<rparr>)"
proof (intro conjI impI)
  assume ne: "collect_numbers file_paths \<noteq> []"
  show "let ns = collect_numbers file_paths; r = validate_sequence file_paths
       in sorted (missing_numbers r) \<and> distinct (missing_numbers r)
          \<and> set (missing_numbers r) = {Min (set ns)..Max (set ns)} - set ns
          \<and> distinct (map fst (duplicate_numbers r))
          \<and> (\<forall>n. map_of (duplicate_numbers r) n =
                 (let names = map name (filter (\<lambda>p. match_number p = Some n) file_paths)
                  in if length names > 1 then Some names else None))
          \<and> is_valid r = (missing_numbers r = [] \<and> duplicate_numbers r = [])
          \<and> min_number r = Some (Min (set ns)) \<and> max_number r = Some (Max (set ns))"
    using ne
    by (simp add: validate_sequence_def Let_def detect_missing_set detect_duplicates_distinct
        detect_duplicates_map_of py_min_Min py_max_Max)
next
  assume ms: "mset (collect_numbers file_paths) = {#1, 2, 4, 5#}"
  then have ne: "collect_numbers file_paths \<noteq> []" by auto
  from ms have "set_mset (mset (collect_numbers file_paths)) = {1, 2, 4, 5}" by simp
  then have st: "set (collect_numbers file_paths) = {1, 2, 4, 5}" by simp
  have diff: "{1..5} - {1, 2, 4, 5} = {3::int}" by auto
  have missing: "detect_missing file_paths = [3]"
    by (simp add: detect_missing_set [OF ne] st diff)
  have "map_of (detect_duplicates file_paths) n = None" for n
  proof -
    have "length (filter (\<lambda>p. match_number p = Some n) file_paths) \<le> 1"
      by (simp add: count_collect_numbers [symmetric] ms)
    then show ?thesis by (simp add: detect_duplicates_map_of)
  qed
  then have dup: "detect_duplicates file_paths = []"
    by (rule alist_empty_if_map_of_None)
  show "validate_sequence file_paths =
          \<lparr> is_valid = False, missing_numbers = [3], duplicate_numbers = [],
            total_files = length file_paths, min_number = Some 1, max_number = Some 5 \<rparr>"
    using ne by (simp add: validate_sequence_def missing dup py_min_Min py_max_Max st)
qed

theorem validate_sequence_report_witness:
  "collect_numbers [Path ''/'' [''m'', ''p001.jpg''], Path ''/'' [''m'', ''p002.jpg''],
                    Path ''/'' [''m'', ''p004.jpg''], Path ''/'' [''m'', ''p005.jpg'']] = [1, 2, 4, 5]
   \<and> validate_sequence [Path ''/'' [''m'', ''p001.jpg''], Path ''/'' [''m'', ''p002.jpg''],
                    Path ''/'' [''m'', ''p004.jpg''], Path ''/'' [''m'', ''p005.jpg'']] =
          \<lparr> is_valid = False, missing_numbers = [3], duplicate_numbers = [],
            total_files = 4, min_number = Some 1, max_number = Some 5 \<rparr>"
proof -
  let ?fs = "[Path ''/'' [''m'', ''p001.jpg''], Path ''/'' [''m'', ''p002.jpg''],
              Path ''/'' [''m'', ''p004.jpg''], Path ''/'' [''m'', ''p005.jpg'']]"
  have c: "collect_numbers ?fs = [1, 2, 4, 5]"
    by (simp add: match_number_def search_digits_def stem_def name_def rfind_def is_digit_def
        py_int_def)
  have ms: "mset (collect_numbers ?fs) = {#1, 2, 4, 5#}"
    by (simp only: c) simp
  have "validate_sequence ?fs =
          \<lparr> is_valid = False, missing_numbers = [3], duplicate_numbers = [],
            total_files = length ?fs, min_number = Some 1, max_number = Some 5 \<rparr>"
    by (rule validate_sequence_report [of ?fs, THEN conjunct2, THEN mp, OF ms])
  then show ?thesis
    by (simp only: c) simp
qed

section \<open>Properties of the renamer\<close>


lemma execute_renames_append:
  "execute_renames dry_run os (xs @ ys) fs =
     (let (log1, fs1) = execute_renames dry_run os xs fs;
          (log2, fs2) = execute_renames dry_run os ys fs1
      in (log1 @ log2, fs2))"
  by (induction xs arbitrary: fs) (simp_all add: split_def Let_def)


lemma execute_one_error_iff:
  "(error (fst (execute_one dry_run os info fs)) \<noteq> None) = (\<not> success (fst (execute_one dry_run os info fs)))"
  by (simp add: execute_one_def Let_def split: prod.splits option.splits)


lemma execute_renames_length:
  "length (fst (execute_renames dry_run os plans fs)) = length plans"
  by (induction plans arbitrary: fs) (simp_all add: split_def Let_def)

lemma execute_renames_error_iff:
  "entry \<in> set (fst (execute_renames dry_run os plans fs)) \<Longrightarrow>
     (error entry \<noteq> None) = (\<not> success entry)"
proof (induction plans arbitrary: fs)
  case Nil
  then show ?case by simp
next
  case (Cons info plans)
  then show ?case
    using execute_one_error_iff [of dry_run os info fs]
    by (auto simp: split_def Let_def)
qed

lemma execute_one_failure:
  "\<not> dry_run \<Longrightarrow> fst (rename_one os (original_path info) (final_path info) fs) = Some e \<Longrightarrow>
   fst (execute_one dry_run os info fs) =
     \<lparr> original = str_path (original_path info), new = str_path (final_path info),
       number = planned_number info, success = False, error = Some (str_error e) \<rparr>"
  by (cases "rename_one os (original_path info) (final_path info) fs")
     (simp add: execute_one_def Let_def)



text \<open>
  Claim C8 (as amended). Called with an empty file list, \<open>rename_files\<close> returns at
  once with the empty log: no error reaches the caller, and the filesystem is untouched
  (no backup directory, no rename, no log entry).
\<close>

theorem rename_files_empty:
  "rename_files dry_run os timestamp [] target_dir prefix digits start_number backup fs =
     Inr ([], fs)"
  by (simp add: rename_files_def)

text \<open>
  Claim C8 as stated fails: the call below, with an empty file list, is not a failed
  operation but a normal return of the empty log.
\<close>

theorem rename_files_empty_is_no_error:
  "rename_files False Posix ''20260101_120000'' [] None ''page_'' 3 1 True
     [Path ''/'' [''m'', ''001.jpg''] \<mapsto> ''A''] =
   Inr ([], [Path ''/'' [''m'', ''001.jpg''] \<mapsto> ''A''])"
  by (simp add: rename_files_def)

text \<open>
  Claim C6. Whatever happens to one item of the plan, the items after it are executed,
  from the filesystem that item left behind, and their entries follow its entry in the
  log. When the item's renaming raises an error, its entry has \<open>success = False\<close> and
  the error's message. In every entry of the log the error is present exactly when
  \<open>success\<close> is false.
\<close>

theorem execute_renames_isolates_failures:
  "(let (rename_log, fs') = execute_renames dry_run os (before @ info # after) fs;
        (log1, fs1) = execute_renames dry_run os before fs;
        (entry, fs2) = execute_one dry_run os info fs1;
        (log2, fs3) = execute_renames dry_run os after fs2
    in rename_log = log1 @ entry # log2 \<and> fs' = fs3
       \<and> length log2 = length after
       \<and> (\<not> dry_run \<longrightarrow>
            (\<forall>e. fst (rename_one os (original_path info) (final_path info) fs1) = Some e \<longrightarrow>
                 entry = \<lparr> original = str_path (original_path info),
                           new = str_path (final_path info),
                           number = planned_number info,
                           success = False, error = Some (str_error e) \<rparr>))
       \<and> (\<forall>entry \<in> set rename_log. (error entry \<noteq> None) = (\<not> success entry)))"
proof -
  have iff: "\<forall>entry \<in> set (fst (execute_renames dry_run os (before @ info # after) fs)).
               (error entry \<noteq> None) = (\<not> success entry)"
    by (intro ballI execute_renames_error_iff)
  have len: "length (fst (execute_renames dry_run os after fs2)) = length after" for fs2
    by (rule execute_renames_length)
  have fail: "\<not> dry_run \<longrightarrow>
            (\<forall>e. fst (rename_one os (original_path info) (final_path info) fs1) = Some e \<longrightarrow>
                 fst (execute_one dry_run os info fs1) =
                   \<lparr> original = str_path (original_path info),
                     new = str_path (final_path info),
                     number = planned_number info,
                     success = False, error = Some (str_error e) \<rparr>)" for fs1
    by (simp add: execute_one_failure)
  show ?thesis
    using iff len fail
    by (simp add: execute_renames_append split_def Let_def)
qed


lemmas path_eval = parent_def name_def suffix_def stem_def rfind_def joinpath_def segments_def
  parse_path_def splitroot_def str_path_def

lemmas number_eval = zfill_def str_int_def digit_char_def


lemma plan_three_cycle:
  "plan_renames (Path ''/'' [''m'']) [] 3 1
     [Path ''/'' [''m'', ''003.jpg''], Path ''/'' [''m'', ''001.jpg''], Path ''/'' [''m'', ''002.jpg'']] =
   [\<lparr> original_path = Path ''/'' [''m'', ''003.jpg''], final_path = Path ''/'' [''m'', ''001.jpg''], planned_number = 1 \<rparr>,
    \<lparr> original_path = Path ''/'' [''m'', ''001.jpg''], final_path = Path ''/'' [''m'', ''002.jpg''], planned_number = 2 \<rparr>,
    \<lparr> original_path = Path ''/'' [''m'', ''002.jpg''], final_path = Path ''/'' [''m'', ''003.jpg''], planned_number = 3 \<rparr>]"
  by code_simp



lemma posix_step1:
  "rename_one Posix (Path ''/'' [''m'', ''003.jpg'']) (Path ''/'' [''m'', ''001.jpg''])
     [Path ''/'' [''m'', ''001.jpg''] \<mapsto> ''A'', Path ''/'' [''m'', ''002.jpg''] \<mapsto> ''B'',
      Path ''/'' [''m'', ''003.jpg''] \<mapsto> ''C''] =
   (None, [Path ''/'' [''m'', ''001.jpg''] \<mapsto> ''C'', Path ''/'' [''m'', ''002.jpg''] \<mapsto> ''B''])"
  by (simp add: rename_one_def os_rename_def exists_path_def path_eval Let_def fun_eq_iff)

lemma posix_step2:
  "rename_one Posix (Path ''/'' [''m'', ''001.jpg'']) (Path ''/'' [''m'', ''002.jpg''])
     [Path ''/'' [''m'', ''001.jpg''] \<mapsto> ''C'', Path ''/'' [''m'', ''002.jpg''] \<mapsto> ''B''] =
   (None, [Path ''/'' [''m'', ''002.jpg''] \<mapsto> ''C''])"
  by (simp add: rename_one_def os_rename_def exists_path_def path_eval Let_def fun_eq_iff)

lemma posix_step3:
  "rename_one Posix (Path ''/'' [''m'', ''002.jpg'']) (Path ''/'' [''m'', ''003.jpg''])
     [Path ''/'' [''m'', ''002.jpg''] \<mapsto> ''C''] =
   (None, [Path ''/'' [''m'', ''003.jpg''] \<mapsto> ''C''])"
  by (simp add: rename_one_def os_rename_def exists_path_def path_eval Let_def fun_eq_iff)

lemma windows_step1:
  "rename_one Windows (Path ''/'' [''m'', ''003.jpg'']) (Path ''/'' [''m'', ''001.jpg''])
     [Path ''/'' [''m'', ''001.jpg''] \<mapsto> ''A'', Path ''/'' [''m'', ''002.jpg''] \<mapsto> ''B'',
      Path ''/'' [''m'', ''003.jpg''] \<mapsto> ''C''] =
   (Some (FileExistsError (Path ''/'' [''m'', ''.tmp_001.jpg'']) (Path ''/'' [''m'', ''001.jpg''])),
    [Path ''/'' [''m'', ''001.jpg''] \<mapsto> ''A'', Path ''/'' [''m'', ''002.jpg''] \<mapsto> ''B'',
     Path ''/'' [''m'', ''.tmp_001.jpg''] \<mapsto> ''C''])"
  by (simp add: rename_one_def os_rename_def exists_path_def path_eval Let_def fun_eq_iff)

lemma windows_step2:
  "rename_one Windows (Path ''/'' [''m'', ''001.jpg'']) (Path ''/'' [''m'', ''002.jpg''])
     [Path ''/'' [''m'', ''001.jpg''] \<mapsto> ''A'', Path ''/'' [''m'', ''002.jpg''] \<mapsto> ''B'',
      Path ''/'' [''m'', ''.tmp_001.jpg''] \<mapsto> ''C''] =
   (Some (FileExistsError (Path ''/'' [''m'', ''.tmp_002.jpg'']) (Path ''/'' [''m'', ''002.jpg''])),
    [Path ''/'' [''m'', ''002.jpg''] \<mapsto> ''B'', Path ''/'' [''m'', ''.tmp_001.jpg''] \<mapsto> ''C'',
     Path ''/'' [''m'', ''.tmp_002.jpg''] \<mapsto> ''A''])"
  by (simp add: rename_one_def os_rename_def exists_path_def path_eval Let_def fun_eq_iff)

lemma windows_step3:
  "rename_one Windows (Path ''/'' [''m'', ''002.jpg'']) (Path ''/'' [''m'', ''003.jpg''])
     [Path ''/'' [''m'', ''002.jpg''] \<mapsto> ''B'', Path ''/'' [''m'', ''.tmp_001.jpg''] \<mapsto> ''C'',
      Path ''/'' [''m'', ''.tmp_002.jpg''] \<mapsto> ''A''] =
   (None,
    [Path ''/'' [''m'', ''.tmp_001.jpg''] \<mapsto> ''C'', Path ''/'' [''m'', ''.tmp_002.jpg''] \<mapsto> ''A'',
     Path ''/'' [''m'', ''003.jpg''] \<mapsto> ''B''])"
  by (simp add: rename_one_def os_rename_def exists_path_def path_eval Let_def fun_eq_iff)

lemma rename_files_three_cycle_start:
  "rename_files False os ''20260101_120000''
     [Path ''/'' [''m'', ''003.jpg''], Path ''/'' [''m'', ''001.jpg''], Path ''/'' [''m'', ''002.jpg'']]
     None [] 3 1 False fs =
   Inr (execute_renames False os
     [\<lparr> original_path = Path ''/'' [''m'', ''003.jpg''], final_path = Path ''/'' [''m'', ''001.jpg''], planned_number = 1 \<rparr>,
      \<lparr> original_path = Path ''/'' [''m'', ''001.jpg''], final_path = Path ''/'' [''m'', ''002.jpg''], planned_number = 2 \<rparr>,
      \<lparr> original_path = Path ''/'' [''m'', ''002.jpg''], final_path = Path ''/'' [''m'', ''003.jpg''], planned_number = 3 \<rparr>] fs)"
  by (simp add: rename_files_def parent_def Let_def plan_three_cycle
      del: plan_renames.simps execute_renames.simps)

text \<open>
  Claim C1, on the 3-cycle in which \<^verbatim>\<open>003.jpg\<close> is to become \<^verbatim>\<open>001.jpg\<close>,
  \<^verbatim>\<open>001.jpg\<close> is to become \<^verbatim>\<open>002.jpg\<close> and \<^verbatim>\<open>002.jpg\<close> is to become
  \<^verbatim>\<open>003.jpg\<close>. On POSIX every entry reports success, yet a single file is left and the
  contents \<open>''A''\<close> and \<open>''B''\<close> are gone: the second step of the indirect rename
  replaces the file that holds the planned name. On Windows that second step raises, two
  of the three entries are failures and two files are left under their temporary names.
\<close>

theorem rename_files_three_cycle:
  "rename_files False Posix ''20260101_120000''
     [Path ''/'' [''m'', ''003.jpg''], Path ''/'' [''m'', ''001.jpg''], Path ''/'' [''m'', ''002.jpg'']]
     None [] 3 1 False
     [Path ''/'' [''m'', ''001.jpg''] \<mapsto> ''A'', Path ''/'' [''m'', ''002.jpg''] \<mapsto> ''B'',
      Path ''/'' [''m'', ''003.jpg''] \<mapsto> ''C''] =
   Inr ([\<lparr> original = ''/m/003.jpg'', new = ''/m/001.jpg'', number = 1, success = True, error = None \<rparr>,
         \<lparr> original = ''/m/001.jpg'', new = ''/m/002.jpg'', number = 2, success = True, error = None \<rparr>,
         \<lparr> original = ''/m/002.jpg'', new = ''/m/003.jpg'', number = 3, success = True, error = None \<rparr>],
        [Path ''/'' [''m'', ''003.jpg''] \<mapsto> ''C''])
   \<and> rename_files False Windows ''20260101_120000''
     [Path ''/'' [''m'', ''003.jpg''], Path ''/'' [''m'', ''001.jpg''], Path ''/'' [''m'', ''002.jpg'']]
     None [] 3 1 False
     [Path ''/'' [''m'', ''001.jpg''] \<mapsto> ''A'', Path ''/'' [''m'', ''002.jpg''] \<mapsto> ''B'',
      Path ''/'' [''m'', ''003.jpg''] \<mapsto> ''C''] =
   Inr ([\<lparr> original = ''/m/003.jpg'', new = ''/m/001.jpg'', number = 1, success = False,
           error = Some (str_error (FileExistsError (Path ''/'' [''m'', ''.tmp_001.jpg''])
                                                    (Path ''/'' [''m'', ''001.jpg'']))) \<rparr>,
         \<lparr> original = ''/m/001.jpg'', new = ''/m/002.jpg'', number = 2, success = False,
           error = Some (str_error (FileExistsError (Path ''/'' [''m'', ''.tmp_002.jpg''])
                                                    (Path ''/'' [''m'', ''002.jpg'']))) \<rparr>,
         \<lparr> original = ''/m/002.jpg'', new = ''/m/003.jpg'', number = 3, success = True, error = None \<rparr>],
        [Path ''/'' [''m'', ''.tmp_001.jpg''] \<mapsto> ''C'', Path ''/'' [''m'', ''.tmp_002.jpg''] \<mapsto> ''A'',
         Path ''/'' [''m'', ''003.jpg''] \<mapsto> ''B''])"
  by (simp add: rename_files_three_cycle_start execute_one_def posix_step1 posix_step2
      posix_step3 windows_step1 windows_step2 windows_step3 str_path_def del: str_error.simps)





lemma missing_source_step:
  "execute_one False Posix
     \<lparr> original_path = Path ''/'' [''m'', ''a.jpg''], final_path = Path ''/'' [''m'', ''001.jpg''],
       planned_number = 1 \<rparr> [Path ''/'' [''m'', ''b.jpg''] \<mapsto> ''B''] =
   (\<lparr> original = ''/m/a.jpg'', new = ''/m/001.jpg'', number = 1, success = False,
      error = Some (str_error (FileNotFoundError (Path ''/'' [''m'', ''a.jpg''])
                                                 (Path ''/'' [''m'', ''001.jpg'']))) \<rparr>,
    [Path ''/'' [''m'', ''b.jpg''] \<mapsto> ''B''])"
  by (simp add: execute_one_def rename_one_def os_rename_def exists_path_def str_path_def
      del: str_error.simps)

lemma present_source_step:
  "execute_one False Posix
     \<lparr> original_path = Path ''/'' [''m'', ''b.jpg''], final_path = Path ''/'' [''m'', ''002.jpg''],
       planned_number = 2 \<rparr> [Path ''/'' [''m'', ''b.jpg''] \<mapsto> ''B''] =
   (\<lparr> original = ''/m/b.jpg'', new = ''/m/002.jpg'', number = 2, success = True, error = None \<rparr>,
    [Path ''/'' [''m'', ''002.jpg''] \<mapsto> ''B''])"
  by (simp add: execute_one_def rename_one_def os_rename_def exists_path_def str_path_def
      fun_eq_iff)

theorem execute_renames_isolates_failures_witness:
  "execute_renames False Posix
     [\<lparr> original_path = Path ''/'' [''m'', ''a.jpg''], final_path = Path ''/'' [''m'', ''001.jpg''],
        planned_number = 1 \<rparr>,
      \<lparr> original_path = Path ''/'' [''m'', ''b.jpg''], final_path = Path ''/'' [''m'', ''002.jpg''],
        planned_number = 2 \<rparr>]
     [Path ''/'' [''m'', ''b.jpg''] \<mapsto> ''B''] =
   ([\<lparr> original = ''/m/a.jpg'', new = ''/m/001.jpg'', number = 1, success = False,
       error = Some (str_error (FileNotFoundError (Path ''/'' [''m'', ''a.jpg''])
                                                  (Path ''/'' [''m'', ''001.jpg'']))) \<rparr>,
     \<lparr> original = ''/m/b.jpg'', new = ''/m/002.jpg'', number = 2, success = True, error = None \<rparr>],
    [Path ''/'' [''m'', ''002.jpg''] \<mapsto> ''B''])
   \<and> fst (rename_one Posix (Path ''/'' [''m'', ''a.jpg'']) (Path ''/'' [''m'', ''001.jpg''])
            [Path ''/'' [''m'', ''b.jpg''] \<mapsto> ''B'']) =
       Some (FileNotFoundError (Path ''/'' [''m'', ''a.jpg'']) (Path ''/'' [''m'', ''001.jpg'']))"
  using execute_renames_isolates_failures
    [where dry_run = False and os = Posix and before = "[]"
       and info = "\<lparr> original_path = Path ''/'' [''m'', ''a.jpg''],
                     final_path = Path ''/'' [''m'', ''001.jpg''], planned_number = 1 \<rparr>"
       and after = "[\<lparr> original_path = Path ''/'' [''m'', ''b.jpg''],
                       final_path = Path ''/'' [''m'', ''002.jpg''], planned_number = 2 \<rparr>]"
       and fs = "[Path ''/'' [''m'', ''b.jpg''] \<mapsto> ''B'']"]
  by (simp add: missing_source_step present_source_step rename_one_def os_rename_def
      exists_path_def del: str_error.simps)

section \<open>Properties of the comparison cache and the sort\<close>

lemma run_sort_mset: "mset (fst (run_sort cmp p xs s)) = mset xs"
proof (induction p arbitrary: xs s)
  case Halt
  then show ?case by simp
next
  case (Swap i j p)
  then show ?case by (simp add: mset_swap)
next
  case (IfLt i j p q)
  then show ?case by (simp add: split_def Let_def)
qed

lemma compare_images_order_failure:
  assumes "llm (length (consultations st)) a b = None"
    and "enable \<Longrightarrow> comparison_cache st (a, b) = None \<and> comparison_cache st (b, a) = None"
  shows "compare_images_order enable llm a b st =
           (0, st\<lparr>consultations := consultations st @ [(a, b, None)]\<rparr>)"
  using assms by (cases enable) (simp_all add: compare_images_order_def)

lemma sort_images_by_content_mset:
  "mset (fst (sort_images_by_content enable llm sorter cb image_paths st)) = mset image_paths"
  by (simp add: sort_images_by_content_def Let_def run_sort_mset)

lemma run_sort_all_unknown:
  assumes step: "\<And>a b s. I s \<Longrightarrow> fst (cmp a b s) = 0 \<and> I (snd (cmp a b s))"
    and "I s"
  shows "fst (run_sort cmp p xs s) = fst (run_sort (key_cmp (\<lambda>_. 0)) p xs ())"
  using \<open>I s\<close>
proof (induction p arbitrary: xs s)
  case Halt
  then show ?case by simp
next
  case (Swap i j p)
  then show ?case by simp
next
  case (IfLt i j p q)
  from step [OF IfLt.prems] have z: "fst (cmp (xs ! i) (xs ! j) s) = 0"
    and I': "I (snd (cmp (xs ! i) (xs ! j) s))" by simp_all
  show ?case
    using IfLt.IH(2) [OF I'] z by (simp add: split_def Let_def key_cmp_def)
qed

lemma compare_images_order_unknown:
  assumes orc: "\<forall>k a b. case llm k a b of None \<Rightarrow> True
                        | Some response \<Rightarrow> extract_result (strip response) = 0"
    and zero: "\<forall>key v. comparison_cache st key = Some v \<longrightarrow> v = 0"
  shows "fst (compare_images_order enable llm a b st) = 0
       \<and> (\<forall>key v. comparison_cache (snd (compare_images_order enable llm a b st)) key = Some v
             \<longrightarrow> v = 0)"
proof -
  have o: "llm k a b = Some response \<Longrightarrow> extract_result (strip response) = 0" for k response
    using orc [rule_format, of k a b] by simp
  show ?thesis
    using zero
    by (auto simp: compare_images_order_def Let_def o split: option.splits)
qed

lemma compare_func_unknown:
  assumes orc: "\<forall>k a b. case llm k a b of None \<Rightarrow> True
                        | Some response \<Rightarrow> extract_result (strip response) = 0"
    and zero: "\<forall>key v. comparison_cache (analyzer s) key = Some v \<longrightarrow> v = 0"
  shows "fst (compare_func enable llm cb tc a b s) = 0
       \<and> (\<forall>key v. comparison_cache (analyzer (snd (compare_func enable llm cb tc a b s))) key
                     = Some v \<longrightarrow> v = 0)"
proof -
  define s' where "s' = (if cb then s\<lparr>current_comparison := current_comparison s + 1,
        progress_calls := progress_calls s @ [(current_comparison s + 1, tc)]\<rparr>
      else s\<lparr>current_comparison := current_comparison s + 1\<rparr>)"
  have an: "analyzer s' = analyzer s" by (simp add: s'_def)
  have cf: "compare_func enable llm cb tc a b s =
      (fst (compare_images_order enable llm a b (analyzer s)),
       s'\<lparr>analyzer := snd (compare_images_order enable llm a b (analyzer s))\<rparr>)"
    by (simp add: compare_func_def Let_def split_def s'_def)
  show ?thesis
    using compare_images_order_unknown [OF orc zero, of enable a b]
    by (simp add: cf)
qed


text \<open>
  Claim C3. When the oracle raises at a consultation, \<open>compare_images_order\<close> returns 0
  for that comparison (and caches nothing) instead of raising; and whatever the oracle
  does, at one consultation or at many, and whatever the sorting algorithm asks,
  \<open>sort_images_by_content\<close> returns a list with exactly the items of its input, each as
  often as the input has it.
\<close>

theorem sort_survives_oracle_failure:
  "(llm (length (consultations st)) a b = None \<longrightarrow>
      (enable \<longrightarrow> comparison_cache st (a, b) = None \<and> comparison_cache st (b, a) = None) \<longrightarrow>
      compare_images_order enable llm a b st =
        (0, st\<lparr>consultations := consultations st @ [(a, b, None)]\<rparr>))
   \<and> mset (fst (sort_images_by_content enable llm sorter progress_callback image_paths st)) =
       mset image_paths
   \<and> length (fst (sort_images_by_content enable llm sorter progress_callback image_paths st)) =
       length image_paths"
proof (intro conjI impI)
  assume "llm (length (consultations st)) a b = None"
    and "enable \<longrightarrow> comparison_cache st (a, b) = None \<and> comparison_cache st (b, a) = None"
  then show "compare_images_order enable llm a b st =
        (0, st\<lparr>consultations := consultations st @ [(a, b, None)]\<rparr>)"
    by (intro compare_images_order_failure) simp_all
next
  show m: "mset (fst (sort_images_by_content enable llm sorter progress_callback image_paths st)) =
       mset image_paths"
    by (rule sort_images_by_content_mset)
  show "length (fst (sort_images_by_content enable llm sorter progress_callback image_paths st)) =
       length image_paths"
    using m by (rule mset_eq_length)
qed

lemma second_fails_run:
  "sort_images_by_content True second_fails insertion_sorter True
     [''c.jpg'', ''a.jpg'', ''b.jpg''] vlm_init =
   ([''a.jpg'', ''c.jpg'', ''b.jpg''],
    \<lparr> analyzer = \<lparr> comparison_cache = [(''a.jpg'', ''c.jpg'') \<mapsto> - 1],
                     consultations = [(''a.jpg'', ''c.jpg'', Some ''-1''),
                                      (''b.jpg'', ''c.jpg'', None)] \<rparr>,
      current_comparison = 2, progress_calls = [(1, 3), (2, 3)] \<rparr>)"
  by (simp add: sort_images_by_content_def insertion_sorter_def compare_func_def
      compare_images_order_def second_fails_def vlm_init_def extract_result_def strip_def
      is_space_def Let_def numeral_3_eq_3)

theorem sort_survives_oracle_failure_witness:
  "second_fails (length (consultations
       \<lparr> comparison_cache = [(''a.jpg'', ''c.jpg'') \<mapsto> - 1],
         consultations = [(''a.jpg'', ''c.jpg'', Some ''-1'')] \<rparr>)) ''b.jpg'' ''c.jpg'' = None
   \<and> compare_images_order True second_fails ''b.jpg'' ''c.jpg''
       \<lparr> comparison_cache = [(''a.jpg'', ''c.jpg'') \<mapsto> - 1],
         consultations = [(''a.jpg'', ''c.jpg'', Some ''-1'')] \<rparr> =
       (0, \<lparr> comparison_cache = [(''a.jpg'', ''c.jpg'') \<mapsto> - 1],
              consultations = [(''a.jpg'', ''c.jpg'', Some ''-1''), (''b.jpg'', ''c.jpg'', None)] \<rparr>)
   \<and> fst (sort_images_by_content True second_fails insertion_sorter True
            [''c.jpg'', ''a.jpg'', ''b.jpg''] vlm_init) = [''a.jpg'', ''c.jpg'', ''b.jpg'']
   \<and> mset [''a.jpg'', ''c.jpg'', ''b.jpg''] = mset [''c.jpg'', ''a.jpg'', ''b.jpg'']"
  using sort_survives_oracle_failure
    [where llm = second_fails and enable = True and a = "''b.jpg''" and b = "''c.jpg''"
       and st = "\<lparr> comparison_cache = [(''a.jpg'', ''c.jpg'') \<mapsto> - 1],
                   consultations = [(''a.jpg'', ''c.jpg'', Some ''-1'')] \<rparr>"
       and sorter = insertion_sorter and progress_callback = True
       and image_paths = "[''c.jpg'', ''a.jpg'', ''b.jpg'']"]
    sort_survives_oracle_failure
    [where llm = second_fails and enable = True and st = vlm_init
       and sorter = insertion_sorter and progress_callback = True
       and image_paths = "[''c.jpg'', ''a.jpg'', ''b.jpg'']"]
  by (simp add: second_fails_run) (simp add: second_fails_def)


text \<open>
  Claim C4. When the library's sort is a stable sort, every answer of the oracle reads as
  0 (or the consultation fails, which counts as 0) and the cache holds no other verdict,
  \<open>sort_images_by_content\<close> returns its input list unchanged.
\<close>

theorem sort_all_unknown_keeps_order:
  assumes "stable_sort_prog (sorter (length image_paths)) (length image_paths)"
    and "\<forall>k a b. case llm k a b of None \<Rightarrow> True
                   | Some response \<Rightarrow> extract_result (strip response) = 0"
    and "\<forall>key v. comparison_cache st key = Some v \<longrightarrow> v = 0"
  shows "fst (sort_images_by_content enable llm sorter progress_callback image_paths st) =
           image_paths"
proof (cases "length image_paths \<le> 1")
  case True
  then show ?thesis by (simp add: sort_images_by_content_def)
next
  case False
  define tc where "tc = (length image_paths * (length image_paths - 1)) div 2"
  define I where "I = (\<lambda>s :: sort_state. \<forall>key v. comparison_cache (analyzer s) key = Some v \<longrightarrow> v = 0)"
  have step: "I s \<Longrightarrow> fst (compare_func enable llm progress_callback tc a b s) = 0
                 \<and> I (snd (compare_func enable llm progress_callback tc a b s))" for a b s
    unfolding I_def by (rule compare_func_unknown [OF assms(2)])
  have start: "I \<lparr> analyzer = st, current_comparison = 0, progress_calls = [] \<rparr>"
    using assms(3) by (simp add: I_def)
  have "fst (sort_images_by_content enable llm sorter progress_callback image_paths st) =
          fst (run_sort (key_cmp (\<lambda>_. 0)) (sorter (length image_paths)) image_paths ())"
    using False run_sort_all_unknown [of I "compare_func enable llm progress_callback tc", OF step start]
    by (simp add: sort_images_by_content_def Let_def tc_def)
  also have "\<dots> = sort_key (\<lambda>_. 0 :: int) image_paths"
    using assms(1) by (simp add: stable_sort_prog_def)
  also have "\<dots> = image_paths" by (rule sort_key_const)
  finally show ?thesis .
qed

lemma insertion_sorter_3_stable: "stable_sort_prog (insertion_sorter 3) 3"
proof -
  have "fst (run_sort (key_cmp key) (insertion_sorter 3) [a, b, c] ()) = sort_key key [a, b, c]"
    for key :: "string \<Rightarrow> int" and a b c
    by (simp add: insertion_sorter_def numeral_3_eq_3 key_cmp_def)
  then show ?thesis
    by (auto simp: stable_sort_prog_def length_Suc_conv numeral_3_eq_3)
qed

theorem sort_all_unknown_keeps_order_witness:
  "fst (sort_images_by_content True (\<lambda>k a b. if even k then Some ''0'' else None)
          insertion_sorter True [''c.jpg'', ''a.jpg'', ''b.jpg'']
          \<lparr> comparison_cache = [(''b.jpg'', ''a.jpg'') \<mapsto> 0], consultations = [] \<rparr>) =
     [''c.jpg'', ''a.jpg'', ''b.jpg'']"
proof -
  have s: "stable_sort_prog (insertion_sorter (length [''c.jpg'', ''a.jpg'', ''b.jpg'']))
             (length [''c.jpg'', ''a.jpg'', ''b.jpg''])"
    using insertion_sorter_3_stable by (simp add: numeral_3_eq_3)
  have o: "\<forall>k a b. case (if even k then Some ''0'' else None) of None \<Rightarrow> True
                   | Some response \<Rightarrow> extract_result (strip response) = 0"
    by (simp add: extract_result_def strip_def is_space_def)
  have c: "\<forall>key v. comparison_cache
              \<lparr> comparison_cache = [(''b.jpg'', ''a.jpg'') \<mapsto> 0], consultations = [] \<rparr> key = Some v
            \<longrightarrow> v = 0"
    by simp
  show ?thesis
    by (rule sort_all_unknown_keeps_order
        [where llm = "\<lambda>k a b. if even k then Some ''0'' else None"
           and sorter = insertion_sorter and image_paths = "[''c.jpg'', ''a.jpg'', ''b.jpg'']"
           and st = "\<lparr> comparison_cache = [(''b.jpg'', ''a.jpg'') \<mapsto> 0], consultations = [] \<rparr>",
         OF s o c])
qed


lemma cache_inv_init: "cache_inv vlm_init"
  by (simp add: cache_inv_def vlm_init_def consultations_of_def)

lemma consultations_of_append:
  "consultations_of a b (st\<lparr>consultations := consultations st @ [(x, y, r)]\<rparr>) =
     consultations_of a b st @ (if (x, y) = (a, b) \<or> (x, y) = (b, a) then [(x, y, r)] else [])"
  by (simp add: consultations_of_def)

lemma consultations_of_cache_update [simp]:
  "consultations_of a b (st\<lparr>comparison_cache := c\<rparr>) = consultations_of a b st"
  by (simp add: consultations_of_def)

lemma cache_inv_miss_failed:
  assumes "cache_inv st" "comparison_cache st (x, y) = None" "comparison_cache st (y, x) = None"
  shows "cache_inv (st\<lparr>consultations := consultations st @ [(x, y, None)]\<rparr>)"
  unfolding cache_inv_def
proof (intro allI)
  fix a b
  let ?st' = "st\<lparr>consultations := consultations st @ [(x, y, None)]\<rparr>"
  from assms(1) have
    i1: "comparison_cache st (a, b) = None \<and> comparison_cache st (b, a) = None \<longrightarrow>
                list_all failed (consultations_of a b st)"
    and i2: "list_all failed (butlast (consultations_of a b st))"
    and i3: "a \<noteq> b \<longrightarrow> comparison_cache st (a, b) = None \<or> comparison_cache st (b, a) = None"
    by (simp_all add: cache_inv_def)
  have cache: "comparison_cache ?st' = comparison_cache st" by simp
  show "(comparison_cache ?st' (a, b) = None \<and> comparison_cache ?st' (b, a) = None \<longrightarrow>
                list_all failed (consultations_of a b ?st'))
            \<and> list_all failed (butlast (consultations_of a b ?st'))
            \<and> (a \<noteq> b \<longrightarrow> comparison_cache ?st' (a, b) = None \<or> comparison_cache ?st' (b, a) = None)"
  proof (cases "(x, y) = (a, b) \<or> (x, y) = (b, a)")
    case True
    then have cs: "consultations_of a b ?st' = consultations_of a b st @ [(x, y, None)]"
      by (auto simp: consultations_of_def)
    from True assms(2,3)
    have "comparison_cache st (a, b) = None \<and> comparison_cache st (b, a) = None"
      by auto
    with i1 have "list_all failed (consultations_of a b st)" by simp
    with i3 show ?thesis
      unfolding cs cache by (simp add: failed_def)
  next
    case False
    then have cs: "consultations_of a b ?st' = consultations_of a b st"
      by (auto simp: consultations_of_def)
    from i1 i2 i3 show ?thesis
      unfolding cs cache by simp
  qed
qed

lemma cache_inv_miss_answered:
  assumes "cache_inv st" "comparison_cache st (x, y) = None" "comparison_cache st (y, x) = None"
  shows "cache_inv (st\<lparr>consultations := consultations st @ [(x, y, Some response)],
                        comparison_cache := (comparison_cache st)((x, y) \<mapsto> v)\<rparr>)"
proof -
  define st' where "st' = st\<lparr>consultations := consultations st @ [(x, y, Some response)],
                        comparison_cache := (comparison_cache st)((x, y) \<mapsto> v)\<rparr>"
  have cache: "comparison_cache st' = (comparison_cache st)((x, y) \<mapsto> v)"
    by (simp add: st'_def)
  have "(comparison_cache st' (a, b) = None \<and> comparison_cache st' (b, a) = None \<longrightarrow>
                list_all failed (consultations_of a b st'))
            \<and> list_all failed (butlast (consultations_of a b st'))
            \<and> (a \<noteq> b \<longrightarrow> comparison_cache st' (a, b) = None \<or> comparison_cache st' (b, a) = None)"
    for a b
  proof -
    from assms(1) have
      i1: "comparison_cache st (a, b) = None \<and> comparison_cache st (b, a) = None \<longrightarrow>
                  list_all failed (consultations_of a b st)"
      and i2: "list_all failed (butlast (consultations_of a b st))"
      and i3: "a \<noteq> b \<longrightarrow> comparison_cache st (a, b) = None \<or> comparison_cache st (b, a) = None"
      by (simp_all add: cache_inv_def)
    show ?thesis
    proof (cases "(x, y) = (a, b) \<or> (x, y) = (b, a)")
      case True
      then have cs: "consultations_of a b st' = consultations_of a b st @ [(x, y, Some response)]"
        by (auto simp: consultations_of_def st'_def)
      from True assms(2,3)
      have n: "comparison_cache st (a, b) = None" "comparison_cache st (b, a) = None"
        by auto
      with i1 have all: "list_all failed (consultations_of a b st)" by simp
      have c1: "\<not> (comparison_cache st' (a, b) = None \<and> comparison_cache st' (b, a) = None)"
        using True unfolding cache by auto
      have c3: "a \<noteq> b \<longrightarrow> comparison_cache st' (a, b) = None \<or> comparison_cache st' (b, a) = None"
        using True n unfolding cache by auto
      from c1 c3 all show ?thesis
        unfolding cs butlast_snoc by blast
    next
      case False
      then have cs: "consultations_of a b st' = consultations_of a b st"
        by (auto simp: consultations_of_def st'_def)
      from False have k: "comparison_cache st' (a, b) = comparison_cache st (a, b)"
        "comparison_cache st' (b, a) = comparison_cache st (b, a)"
        unfolding cache by auto
      from i1 i2 i3 show ?thesis
        unfolding cs k by simp
    qed
  qed
  then show ?thesis
    unfolding cache_inv_def st'_def by blast
qed

lemma cache_inv_step:
  assumes "cache_inv st"
  shows "cache_inv (snd (compare_images_order True llm x y st))"
proof (cases "comparison_cache st (x, y)")
  case (Some v)
  with assms show ?thesis by (simp add: compare_images_order_def)
next
  case None
  note miss = this
  show ?thesis
  proof (cases "comparison_cache st (y, x)")
    case (Some v)
    with miss assms show ?thesis by (simp add: compare_images_order_def)
  next
    case None
    show ?thesis
    proof (cases "llm (length (consultations st)) x y")
      case None
      with miss \<open>comparison_cache st (y, x) = None\<close> cache_inv_miss_failed [OF assms miss \<open>comparison_cache st (y, x) = None\<close>]
      show ?thesis by (simp add: compare_images_order_def)
    next
      case (Some response)
      with miss \<open>comparison_cache st (y, x) = None\<close>
        cache_inv_miss_answered [OF assms miss \<open>comparison_cache st (y, x) = None\<close>,
          where response = response and v = "extract_result (strip response)"]
      show ?thesis by (simp add: compare_images_order_def Let_def)
    qed
  qed
qed

lemma cache_inv_sequence:
  "cache_inv st \<Longrightarrow> cache_inv (snd (call_sequence True llm calls st))"
proof (induction calls arbitrary: st)
  case Nil
  then show ?case by simp
next
  case (Cons c calls)
  obtain a b where c: "c = (a, b)" by (cases c)
  from Cons.IH [OF cache_inv_step [OF Cons.prems, of llm a b]]
  show ?case by (simp add: c split_def Let_def)
qed


lemma answered_step:
  assumes "\<forall>k x y. llm k x y \<noteq> None"
    and "list_all (\<lambda>c. \<not> failed c) (consultations st)"
  shows "list_all (\<lambda>c. \<not> failed c) (consultations (snd (compare_images_order enable llm x y st)))"
proof -
  from assms(1) obtain r where r: "llm (length (consultations st)) x y = Some r"
    by blast
  show ?thesis
    using assms(2)
    by (simp add: compare_images_order_def Let_def failed_def r split: option.splits)
qed

lemma answered_sequence:
  assumes "\<forall>k x y. llm k x y \<noteq> None"
  shows "list_all (\<lambda>c. \<not> failed c) (consultations st) \<Longrightarrow>
         list_all (\<lambda>c. \<not> failed c) (consultations (snd (call_sequence enable llm calls st)))"
proof (induction calls arbitrary: st)
  case Nil
  then show ?case by simp
next
  case (Cons c calls)
  obtain a b where c: "c = (a, b)" by (cases c)
  from Cons.IH [OF answered_step [OF assms Cons.prems, of enable a b]]
  show ?case by (simp add: c split_def Let_def)
qed

lemma last_answer_only:
  assumes "list_all failed (butlast cs)"
  shows "length (filter (\<lambda>c. \<not> failed c) cs) \<le> 1"
proof (cases cs rule: rev_cases)
  case Nil
  then show ?thesis by simp
next
  case (snoc ys y)
  with assms have "filter (\<lambda>c. \<not> failed c) ys = []"
    by (simp add: list_all_iff filter_empty_conv)
  with snoc show ?thesis by simp
qed

lemma one_consultation:
  assumes "list_all failed (butlast cs)" and "list_all (\<lambda>c. \<not> failed c) cs"
  shows "length cs \<le> 1"
proof (cases cs rule: rev_cases)
  case Nil
  then show ?thesis by simp
next
  case (snoc ys y)
  with assms have "list_all failed ys" "list_all (\<lambda>c. \<not> failed c) ys" by simp_all
  then have "ys = []" by (cases ys) simp_all
  with snoc show ?thesis by simp
qed

lemma cached_pair_hits:
  assumes "cache_inv st" "a \<noteq> b" "comparison_cache st (a, b) = Some v"
  shows "compare_images_order True llm a b st = (v, st)"
    and "compare_images_order True llm b a st = (- v, st)"
proof -
  from assms have "comparison_cache st (b, a) = None"
    unfolding cache_inv_def by (metis option.distinct(1))
  with assms(3) show "compare_images_order True llm a b st = (v, st)"
    and "compare_images_order True llm b a st = (- v, st)"
    by (simp_all add: compare_images_order_def)
qed

text \<open>
  Claim C2 (as amended). With the cache enabled, after any sequence of calls on a fresh
  analyzer and for any two images: of the consultations of the oracle about the pair, in
  either order, all but the last one failed, so the oracle answers about the pair at most
  once, and when the oracle never fails it is consulted about the pair at most once; and
  for two different images with a verdict stored for one order, a call in that order
  returns the verdict and a call in the reverse order returns its negation, both without
  consulting the oracle and without changing the state.
\<close>

theorem compare_cache_consults_once:
  "let st = snd (call_sequence True llm calls vlm_init);
       cs = consultations_of a b st
   in list_all failed (butlast cs)
      \<and> length (filter (\<lambda>c. \<not> failed c) cs) \<le> 1
      \<and> ((\<forall>k x y. llm k x y \<noteq> None) \<longrightarrow> length cs \<le> 1)
      \<and> (\<forall>v. a \<noteq> b \<longrightarrow> comparison_cache st (a, b) = Some v \<longrightarrow>
            compare_images_order True llm a b st = (v, st)
            \<and> compare_images_order True llm b a st = (- v, st))"
proof -
  define st where "st = snd (call_sequence True llm calls vlm_init)"
  have inv: "cache_inv st"
    unfolding st_def by (rule cache_inv_sequence [OF cache_inv_init])
  then have bl: "list_all failed (butlast (consultations_of a b st))"
    by (simp add: cache_inv_def)
  have total: "length (consultations_of a b st) \<le> 1" if "\<forall>k x y. llm k x y \<noteq> None"
  proof -
    have "list_all (\<lambda>c. \<not> failed c) (consultations st)"
      unfolding st_def by (rule answered_sequence [OF that]) (simp add: vlm_init_def)
    then have "list_all (\<lambda>c. \<not> failed c) (consultations_of a b st)"
      by (simp add: consultations_of_def list_all_iff)
    with bl show ?thesis by (rule one_consultation)
  qed
  show ?thesis
    unfolding Let_def st_def [symmetric]
    using bl last_answer_only [OF bl] total cached_pair_hits [OF inv]
    by blast
qed

lemma always_first_session:
  "call_sequence True always_first [(''a.jpg'', ''b.jpg''), (''b.jpg'', ''a.jpg'')] vlm_init =
     ([- 1, 1], \<lparr> comparison_cache = [(''a.jpg'', ''b.jpg'') \<mapsto> - 1],
                  consultations = [(''a.jpg'', ''b.jpg'', Some ''-1'')] \<rparr>)"
  by (simp add: compare_images_order_def always_first_def vlm_init_def extract_result_def
      strip_def is_space_def Let_def)

theorem compare_cache_consults_once_witness:
  "(\<forall>k x y. always_first k x y \<noteq> None) \<and> ''a.jpg'' \<noteq> ''b.jpg''
   \<and> comparison_cache \<lparr> comparison_cache = [(''a.jpg'', ''b.jpg'') \<mapsto> - 1],
                        consultations = [(''a.jpg'', ''b.jpg'', Some ''-1'')] \<rparr>
        (''a.jpg'', ''b.jpg'') = Some (- 1)
   \<and> length (consultations_of ''a.jpg'' ''b.jpg''
        (snd (call_sequence True always_first
               [(''a.jpg'', ''b.jpg''), (''b.jpg'', ''a.jpg'')] vlm_init))) \<le> 1
   \<and> compare_images_order True always_first ''b.jpg'' ''a.jpg''
        \<lparr> comparison_cache = [(''a.jpg'', ''b.jpg'') \<mapsto> - 1],
          consultations = [(''a.jpg'', ''b.jpg'', Some ''-1'')] \<rparr> =
       (1, \<lparr> comparison_cache = [(''a.jpg'', ''b.jpg'') \<mapsto> - 1],
              consultations = [(''a.jpg'', ''b.jpg'', Some ''-1'')] \<rparr>)"
  using compare_cache_consults_once
    [where llm = always_first and calls = "[(''a.jpg'', ''b.jpg''), (''b.jpg'', ''a.jpg'')]"
       and a = "''a.jpg''" and b = "''b.jpg''"]
  unfolding Let_def always_first_session
  by (simp add: always_first_def)

text \<open>
  Claim C2 as stated fails: when the first consultation raises, nothing is cached, the call
  returns 0, and the call on the reversed pair consults the oracle a second time; its
  verdict, \<open>-1\<close>, is not the negation of what the first call returned.
\<close>

theorem failed_consultation_is_repeated:
  "fst (call_sequence True first_fails [(''a.jpg'', ''b.jpg''), (''b.jpg'', ''a.jpg'')] vlm_init) =
     [0, - 1]
   \<and> consultations_of ''a.jpg'' ''b.jpg''
       (snd (call_sequence True first_fails [(''a.jpg'', ''b.jpg''), (''b.jpg'', ''a.jpg'')] vlm_init)) =
     [(''a.jpg'', ''b.jpg'', None), (''b.jpg'', ''a.jpg'', Some ''-1'')]"
  by (simp add: compare_images_order_def first_fails_def vlm_init_def extract_result_def
      strip_def is_space_def Let_def consultations_of_def)

end
